theory Spec2Isabelle
  imports Complex_Main
begin

section \<open>Python and numpy values used by \<open>ModelsML/DecisionTrees.py\<close>\<close>

text \<open>
  Exceptions are values. Impurities are numpy doubles; they are modelled as exact
  rationals together with \<open>NaN\<close>, which is what \<open>0/0\<close> produces and which compares
  false with everything.
\<close>

datatype pyerr = TypeError | ValueError | IndexError | AttributeError | AssertionError

datatype score = NaN | Fin rat

fun score_less :: "score \<Rightarrow> score \<Rightarrow> bool" where
  "score_less (Fin a) (Fin b) = (a < b)"
| "score_less _ _ = False"

fun score_scale :: "nat \<Rightarrow> score \<Rightarrow> score" where
  "score_scale n (Fin a) = Fin (of_nat n * a)"
| "score_scale n NaN = NaN"

fun score_add :: "score \<Rightarrow> score \<Rightarrow> score" where
  "score_add (Fin a) (Fin b) = Fin (a + b)"
| "score_add _ _ = NaN"

text \<open>
  Division by the number of labels. The only dividend that meets a zero divisor in
  \<open>_best_split_classification\<close> is \<open>0 * g + 0 * g'\<close>, so the quotient there is \<open>0/0\<close>.
\<close>

fun score_div :: "score \<Rightarrow> nat \<Rightarrow> score" where
  "score_div (Fin a) n = (if n = 0 then NaN else Fin (a / of_nat n))"
| "score_div NaN n = NaN"

text \<open>\<open>np.unique\<close>: the sorted distinct values, and their counts with \<open>return_counts\<close>.\<close>

definition np_unique :: "'a::linorder list \<Rightarrow> 'a list" where
  "np_unique xs = sort (remdups xs)"

definition np_unique_counts :: "'a::linorder list \<Rightarrow> nat list" where
  "np_unique_counts xs = map (count_list xs) (np_unique xs)"

text \<open>
  Boolean-mask indexing \<open>a[mask]\<close>: numpy raises IndexError when the mask and the
  array differ in length.
\<close>

definition mask_select :: "'a list \<Rightarrow> bool list \<Rightarrow> pyerr + 'a list" where
  "mask_select xs sel =
     (if length sel \<noteq> length xs then Inl IndexError
      else Inr (map fst (filter snd (zip xs sel))))"

text \<open>
  A split candidate: a single value of the column (numeric and ordinal features, from
  \<open>np.unique\<close>) or one of the subsets made by \<open>find_splits\<close> (categorical features).
  \<open>find_splits\<close> lives in \<open>ModelsML/util.py\<close>, as does \<open>gini\<close>; both are parameters
  of the functions below (\<open>FS\<close> and \<open>G\<close>). A subset is an array-like of values.
\<close>

datatype 'v thr = Thr 'v | Subset "'v list"

text \<open>
  Lines 205-208. The candidates are subsets exactly when \<open>data_type == 'c'\<close>
  (lines 200-201), so the test on the data type is the case distinction on the
  candidate: \<open>np.isin(feature_values, threshold)\<close> for a subset,
  \<open>feature_values > threshold\<close> for a value.
\<close>

fun selection :: "'v::linorder list \<Rightarrow> 'v thr \<Rightarrow> bool list" where
  "selection feature_values (Subset s) = map (\<lambda>v. v \<in> set s) feature_values"
| "selection feature_values (Thr t) = map (\<lambda>v. v > t) feature_values"

text \<open>
  Lines 220-223: \<open>new = np.zeros(classes.shape); new[np.isin(classes, unique)] = counts\<close>.
  The counts are written, in their own order, to the positions of \<open>classes\<close> whose class
  occurs; a single count is broadcast; any other mismatch is a ValueError.
\<close>

fun scatter :: "'c list \<Rightarrow> 'c list \<Rightarrow> nat list \<Rightarrow> nat list" where
  "scatter [] uniq cnts = []"
| "scatter (c # cs) uniq cnts =
     (if c \<in> set uniq
      then (case cnts of [] \<Rightarrow> 0 # scatter cs uniq [] | n # ns \<Rightarrow> n # scatter cs uniq ns)
      else 0 # scatter cs uniq cnts)"

definition place_counts :: "'c list \<Rightarrow> 'c list \<Rightarrow> nat list \<Rightarrow> pyerr + nat list" where
  "place_counts classes uniq cnts =
     (if length (filter (\<lambda>c. c \<in> set uniq) classes) = length cnts
      then Inr (scatter classes uniq cnts)
      else if length cnts = 1
      then Inr (map (\<lambda>c. if c \<in> set uniq then hd cnts else 0) classes)
      else Inl ValueError)"

definition distribution :: "'c::linorder list \<Rightarrow> 'c list \<Rightarrow> pyerr + nat list" where
  "distribution classes side = place_counts classes (np_unique side) (np_unique_counts side)"

section \<open>Split Search: \<open>_best_split_classification\<close>\<close>

type_synonym 'v best = "'v thr option \<times> score \<times> nat list option \<times> nat list option"

text \<open>Lines 210-232: the body of the loop for one candidate, up to \<open>gini_split\<close>.\<close>

definition split_eval ::
  "(nat list \<Rightarrow> nat \<Rightarrow> score) \<Rightarrow> 'v::linorder list \<Rightarrow> 'c::linorder list \<Rightarrow> 'c list \<Rightarrow> 'v thr
     \<Rightarrow> pyerr + (score \<times> nat list \<times> nat list)" where
  "split_eval G feature_values labels classes threshold =
     (let sel = selection feature_values threshold;
          num_labels = length labels
      in case mask_select labels sel of Inl e \<Rightarrow> Inl e
         | Inr right \<Rightarrow>
       (case mask_select labels (map Not sel) of Inl e \<Rightarrow> Inl e
         | Inr left \<Rightarrow>
       (let num_right = length right
        in case distribution classes right of Inl e \<Rightarrow> Inl e
           | Inr right_distribution \<Rightarrow>
         (case distribution classes left of Inl e \<Rightarrow> Inl e
           | Inr left_distribution \<Rightarrow>
           (let gini_right = G right_distribution num_right;
                gini_left = G left_distribution (num_labels - num_right);
                gini_split = score_div (score_add (score_scale num_right gini_right)
                               (score_scale (num_labels - num_right) gini_left)) num_labels
            in Inr (gini_split, left_distribution, right_distribution))))))"

text \<open>Lines 203-235: the loop over the candidates, with the running best as state.\<close>

fun split_loop ::
  "(nat list \<Rightarrow> nat \<Rightarrow> score) \<Rightarrow> 'v::linorder list \<Rightarrow> 'c::linorder list \<Rightarrow> 'c list
     \<Rightarrow> 'v thr list \<Rightarrow> 'v best \<Rightarrow> pyerr + 'v best" where
  "split_loop G feature_values labels classes [] best = Inr best"
| "split_loop G feature_values labels classes (threshold # rest)
       (best_thr, impurity, best_left_dist, best_right_dist) =
     (case split_eval G feature_values labels classes threshold of Inl e \<Rightarrow> Inl e
      | Inr (gini_split, left_distribution, right_distribution) \<Rightarrow>
          split_loop G feature_values labels classes rest
            (if score_less gini_split impurity
             then (Some threshold, gini_split, Some left_distribution, Some right_distribution)
             else (best_thr, impurity, best_left_dist, best_right_dist)))"

text \<open>Lines 196-201: the candidates, in the order the loop visits them.\<close>

definition possible_thresholds ::
  "('v list \<Rightarrow> 'v list list) \<Rightarrow> 'v::linorder list \<Rightarrow> string \<Rightarrow> 'v thr list" where
  "possible_thresholds FS feature_values data_type =
     (if data_type = ''c'' then map Subset (FS (np_unique feature_values))
      else map Thr (np_unique feature_values))"

definition best_split_classification ::
  "(nat list \<Rightarrow> nat \<Rightarrow> score) \<Rightarrow> ('v list \<Rightarrow> 'v list list) \<Rightarrow> 'v::linorder list
     \<Rightarrow> 'c::linorder list \<Rightarrow> string \<Rightarrow> 'c list \<Rightarrow> pyerr + 'v best" where
  "best_split_classification G FS feature_values labels data_type classes =
     split_loop G feature_values labels classes
       (possible_thresholds FS feature_values data_type) (None, Fin 1, None, None)"

section \<open>Binary Tree Node: \<open>GeneralDecisionTree\<close>\<close>

text \<open>
  The \<open>_children\<close> list holds object references; \<open>list.remove\<close> compares them by
  identity, which is equality of references. An element offered to the setter is a tree
  object or something else (\<open>isinstance\<close>).
\<close>

datatype 'a pyobj = TreeObj 'a | OtherObj

text \<open>
  Lines 32-34: each child is checked and appended in turn, so a failing check leaves the
  children appended before it. The result is the list afterwards and the exception, if any.
\<close>

fun append_children :: "'a list \<Rightarrow> 'a pyobj list \<Rightarrow> 'a list \<times> pyerr option" where
  "append_children cur [] = (cur, None)"
| "append_children cur (TreeObj c # rest) = append_children (cur @ [c]) rest"
| "append_children cur (OtherObj # rest) = (cur, Some AssertionError)"

definition children_setter :: "'a list \<Rightarrow> 'a pyobj list \<Rightarrow> 'a list \<times> pyerr option" where
  "children_setter cur new =
     (if length new \<noteq> 2 then (cur, Some AssertionError) else append_children cur new)"

text \<open>
  Lines 36-39: \<open>for child in self._children: self._children.remove(child)\<close>. The list
  iterator keeps an index into the list it walks, and the list shrinks under it.
\<close>

function del_loop :: "nat \<Rightarrow> 'a list \<Rightarrow> 'a list" where
  "del_loop i cs = (if i < length cs then del_loop (Suc i) (remove1 (cs ! i) cs) else cs)"
  by pat_completeness auto
termination
  by (relation "measure (\<lambda>(i, cs). length cs - i)") (auto simp: length_remove1)

definition children_deleter :: "'a list \<Rightarrow> 'a list" where
  "children_deleter cs = del_loop 0 cs"

text \<open>
  The two closures that \<open>grow_tree\<close> stores as \<open>split_rule\<close> (lines 132 and 134), and
  the node with the fields of \<open>DecisionTreeClassification\<close>.
\<close>

datatype 'v rule = RGt "'v thr" | REq "'v thr"

datatype 'v tree = Tree (name: string) (split_rule: "'v rule option")
  (split_feature: "nat option") (children: "'v tree list")
  (class_counts: "nat list") (n_subset: nat)

fun set_split :: "'v rule option \<Rightarrow> nat option \<Rightarrow> 'v tree \<Rightarrow> 'v tree" where
  "set_split r f (Tree nm sr sf cs cc n) = Tree nm r f cs cc n"

fun set_children :: "'v tree list \<Rightarrow> 'v tree \<Rightarrow> 'v tree" where
  "set_children cs' (Tree nm sr sf cs cc n) = Tree nm sr sf cs' cc n"

text \<open>
  numpy comparison of an array with a candidate. A value of the array may be Python's
  \<open>None\<close>. Shapes broadcast when they agree or one of them has a single element.
  \<open>>\<close> raises ValueError on shapes that do not broadcast and TypeError on \<open>None\<close>;
  \<open>==\<close> never raises, but on shapes that do not broadcast it gives a plain \<open>False\<close>,
  on which \<open>.astype(int)\<close> is an AttributeError.
\<close>

fun thr_values :: "'v thr \<Rightarrow> 'v list" where
  "thr_values (Thr t) = [t]"
| "thr_values (Subset s) = s"

definition broadcast :: "'a list \<Rightarrow> 'b list \<Rightarrow> ('a \<times> 'b) list option" where
  "broadcast xs ys =
     (if length xs = length ys then Some (zip xs ys)
      else if length ys = 1 then Some (map (\<lambda>x. (x, hd ys)) xs)
      else if length xs = 1 then Some (map (\<lambda>y. (hd xs, y)) ys)
      else None)"

fun gt_pair :: "'v::linorder option \<times> 'v \<Rightarrow> bool" where
  "gt_pair (Some v, t) = (v > t)"
| "gt_pair (None, t) = False"

definition np_gt :: "'v::linorder option list \<Rightarrow> 'v thr \<Rightarrow> pyerr + bool list" where
  "np_gt arr th =
     (case broadcast arr (thr_values th) of None \<Rightarrow> Inl ValueError
      | Some ps \<Rightarrow> if None \<in> fst ` set ps then Inl TypeError else Inr (map gt_pair ps))"

definition np_eq :: "'v option list \<Rightarrow> 'v thr \<Rightarrow> pyerr + bool list" where
  "np_eq arr th =
     (case broadcast arr (thr_values th) of None \<Rightarrow> Inl AttributeError
      | Some ps \<Rightarrow> Inr (map (\<lambda>(x, t). x = Some t) ps))"

fun apply_rule :: "'v::linorder rule \<Rightarrow> 'v option list \<Rightarrow> pyerr + bool list" where
  "apply_rule (RGt th) arr = np_gt arr th"
| "apply_rule (REq th) arr = np_eq arr th"

section \<open>Traversal\<close>




section \<open>Tree Grower: \<open>grow_tree\<close>\<close>

text \<open>Decimal digits of an index, for the child names built at lines 150 and 158.\<close>

fun str_nat :: "nat \<Rightarrow> string" where
  "str_nat n =
     (if n < 10 then [char_of (48 + n)]
      else str_nat (n div 10) @ [char_of (48 + n mod 10)])"

text \<open>
  The feature matrix \<open>X\<close> is kept as its list of columns: \<open>X.shape[1]\<close> is \<open>length X\<close>,
  \<open>X[:, idx]\<close> is \<open>X ! idx\<close>, and \<open>X[rows, :]\<close> selects the same rows in every column.
\<close>

definition mask_rows :: "'a list list \<Rightarrow> bool list \<Rightarrow> pyerr + 'a list list" where
  "mask_rows X sel =
     (if \<exists>col \<in> set X. length col \<noteq> length sel then Inl IndexError
      else Inr (map (\<lambda>col. map fst (filter snd (zip col sel))) X))"

text \<open>
  Lines 116-124: the loop over the features. Its state is \<open>best_gini\<close>, then
  \<open>best_thr, best_p_ind, best_type\<close>, which are assigned together and are \<open>None\<close> together
  before the first assignment (the assigned \<open>best_thr\<close> can itself be \<open>None\<close>), and the
  loop variables \<open>left_distribution, right_distribution\<close>, which every iteration
  overwrites and which are read after the loop.
\<close>

type_synonym 'v search =
  "score \<times> ('v thr option \<times> nat \<times> string) option \<times> nat list option \<times> nat list option"

fun feature_loop ::
  "(nat list \<Rightarrow> nat \<Rightarrow> score) \<Rightarrow> ('v list \<Rightarrow> 'v list list) \<Rightarrow> 'v::linorder list list
     \<Rightarrow> 'c::linorder list \<Rightarrow> 'c list \<Rightarrow> (nat \<times> string) list \<Rightarrow> 'v search \<Rightarrow> pyerr + 'v search" where
  "feature_loop G FS X y classes [] st = Inr st"
| "feature_loop G FS X y classes ((idx, data_type) # rest)
       (best_gini, best, left_distribution, right_distribution) =
     (case best_split_classification G FS (X ! idx) y data_type classes of Inl e \<Rightarrow> Inl e
      | Inr (new_thr, new_gini, left_distribution', right_distribution') \<Rightarrow>
          feature_loop G FS X y classes rest
            (if score_less new_gini best_gini
             then (new_gini, Some (new_thr, idx, data_type),
                   left_distribution', right_distribution')
             else (best_gini, best, left_distribution', right_distribution')))"

text \<open>
  Lines 150-152 and 158-160: a child node. With a distribution that is \<open>None\<close>, computing
  the child's statistics from it fails; the exception leaves \<open>grow_tree\<close>.
\<close>

definition child_node :: "string \<Rightarrow> nat list \<Rightarrow> 'v tree" where
  "child_node nm counts = Tree nm None None [] counts (sum_list counts)"

text \<open>Lines 107-114: the stopping criteria checked before any search.\<close>

definition stops_early :: "nat \<Rightarrow> score \<Rightarrow> int \<Rightarrow> int option \<Rightarrow> int \<Rightarrow> bool" where
  "stops_early y_size best_gini min_size max_depth current_depth =
     (if int y_size < min_size \<or> best_gini = Fin 0 then True
      else case max_depth of None \<Rightarrow> False | Some d \<Rightarrow> current_depth > d)"

text \<open>Lines 116-124: the search over all features.\<close>

definition search_features ::
  "(nat list \<Rightarrow> nat \<Rightarrow> score) \<Rightarrow> ('v list \<Rightarrow> 'v list list) \<Rightarrow> 'v::linorder list list
     \<Rightarrow> 'c::linorder list \<Rightarrow> string list \<Rightarrow> score \<Rightarrow> 'c list \<Rightarrow> pyerr + 'v search" where
  "search_features G FS X y data_types best_gini classes =
     feature_loop G FS X y classes (zip [0..<length X] data_types)
       (best_gini, None, None, None)"

text \<open>Line 127: \<open>(best_thr is not None) and (max_gini > best_gini)\<close>.\<close>

fun commits :: "'v search \<Rightarrow> score \<Rightarrow> ('v thr \<times> nat \<times> string) option" where
  "commits (best_gini, Some (Some best_thr, best_p_ind, best_type), ld, rd) max_gini =
     (if score_less best_gini max_gini then Some (best_thr, best_p_ind, best_type) else None)"
| "commits (best_gini, _, ld, rd) max_gini = None"

text \<open>Lines 131-134: the split rule that is stored in the node.\<close>

definition make_rule :: "string \<Rightarrow> 'v thr \<Rightarrow> 'v rule" where
  "make_rule best_type best_thr =
     (if best_type \<in> {''n'', ''o''} then RGt best_thr else REq best_thr)"

text \<open>
  Lines 137-141: the realized partition, as \<open>(right_y, right_x, left_y, left_x)\<close>.
\<close>

definition partition_data ::
  "'v::linorder rule \<Rightarrow> 'v list list \<Rightarrow> 'c list \<Rightarrow> nat
     \<Rightarrow> pyerr + ('c list \<times> 'v list list \<times> 'c list \<times> 'v list list)" where
  "partition_data rule X y best_p_ind =
     (case apply_rule rule (map Some (X ! best_p_ind)) of Inl e \<Rightarrow> Inl e
      | Inr splits \<Rightarrow>
     (case mask_select y splits of Inl e \<Rightarrow> Inl e
      | Inr right_y \<Rightarrow>
     (case mask_rows X splits of Inl e \<Rightarrow> Inl e
      | Inr right_x \<Rightarrow>
     (case mask_select y (map Not splits) of Inl e \<Rightarrow> Inl e
      | Inr left_y \<Rightarrow>
     (case mask_rows X (map Not splits) of Inl e \<Rightarrow> Inl e
      | Inr left_x \<Rightarrow> Inr (right_y, right_x, left_y, left_x))))))"

text \<open>Line 166, after lines 130-134: the node with its rule, feature and children.\<close>

definition attach :: "'v rule \<Rightarrow> nat \<Rightarrow> 'v tree \<Rightarrow> 'v tree \<Rightarrow> 'v tree \<Rightarrow> 'v tree" where
  "attach rule best_p_ind left_tree right_tree self =
     set_children
       (fst (children_setter (children self) [TreeObj left_tree, TreeObj right_tree]))
       (set_split (Some rule) (Some best_p_ind) self)"

definition child_name :: "'v tree \<Rightarrow> nat \<Rightarrow> string \<Rightarrow> string" where
  "child_name self best_p_ind suffix = name self @ ''_'' @ str_nat best_p_ind @ suffix"

text \<open>
  \<open>grow_tree\<close>, lines 107-172. The method mutates \<open>self\<close>; the model returns the node
  afterwards, or the exception. The first argument bounds the depth of the recursion:
  \<open>None\<close> means the bound was reached. The recursive calls at lines 154 and 162 leave
  \<open>max_gini\<close> at its default, 1.
\<close>

fun grow_tree ::
  "nat \<Rightarrow> (nat list \<Rightarrow> nat \<Rightarrow> score) \<Rightarrow> ('v list \<Rightarrow> 'v list list) \<Rightarrow> 'v::linorder tree
     \<Rightarrow> 'v list list \<Rightarrow> 'c::linorder list \<Rightarrow> string list \<Rightarrow> score \<Rightarrow> 'c list
     \<Rightarrow> int \<Rightarrow> int option \<Rightarrow> int \<Rightarrow> score \<Rightarrow> (pyerr + 'v tree) option" where
  "grow_tree 0 G FS self X y data_types best_gini classes min_size max_depth
       current_depth max_gini = None"
| "grow_tree (Suc fuel) G FS self X y data_types best_gini classes min_size max_depth
       current_depth max_gini =
     (if stops_early (length y) best_gini min_size max_depth current_depth
      then Some (Inr self)
      else case search_features G FS X y data_types best_gini classes of
        Inl e \<Rightarrow> Some (Inl e)
      | Inr found \<Rightarrow>
     (case commits found max_gini of
        None \<Rightarrow> Some (Inr self)
      | Some chosen \<Rightarrow>
     (case partition_data (make_rule (snd (snd chosen)) (fst chosen)) X y (fst (snd chosen)) of
        Inl e \<Rightarrow> Some (Inl e)
      | Inr parts \<Rightarrow>
     (if int (length (fst parts)) < min_size \<or> int (length (fst (snd (snd parts)))) < min_size
      then Some (Inr (set_split None None self))
      else case fst (snd (snd found)) of
        None \<Rightarrow> Some (Inl TypeError)
      | Some left_distribution \<Rightarrow>
     (case grow_tree fuel G FS
             (child_node (child_name self (fst (snd chosen)) ''_child1'') left_distribution)
             (snd (snd (snd parts))) (fst (snd (snd parts))) data_types
             (G left_distribution (length (fst (snd (snd parts))))) classes
             min_size max_depth (current_depth + 1) (Fin 1) of
        None \<Rightarrow> None
      | Some (Inl e) \<Rightarrow> Some (Inl e)
      | Some (Inr left_tree) \<Rightarrow>
     (case snd (snd (snd found)) of
        None \<Rightarrow> Some (Inl TypeError)
      | Some right_distribution \<Rightarrow>
     (case grow_tree fuel G FS
             (child_node (child_name self (fst (snd chosen)) ''_child2'') right_distribution)
             (fst (snd parts)) (fst parts) data_types
             (G right_distribution (length (fst parts))) classes
             min_size max_depth (current_depth + 1) (Fin 1) of
        None \<Rightarrow> None
      | Some (Inl e) \<Rightarrow> Some (Inl e)
      | Some (Inr right_tree) \<Rightarrow>
          Some (Inr (attach (make_rule (snd (snd chosen)) (fst chosen)) (fst (snd chosen))
                       left_tree right_tree self)))))))))"

text \<open>The weighted impurity that line 232 computes for one candidate.\<close>

definition split_gini ::
  "(nat list \<Rightarrow> nat \<Rightarrow> score) \<Rightarrow> 'v::linorder list \<Rightarrow> 'c::linorder list \<Rightarrow> 'c list \<Rightarrow> 'v thr
     \<Rightarrow> score" where
  "split_gini G feature_values labels classes threshold =
     (case split_eval G feature_values labels classes threshold of
        Inl e \<Rightarrow> NaN | Inr res \<Rightarrow> fst res)"

text \<open>What the feature loop knows about a running best whose threshold is set.\<close>

definition found_by ::
  "(nat list \<Rightarrow> nat \<Rightarrow> score) \<Rightarrow> ('v list \<Rightarrow> 'v list list) \<Rightarrow> 'v::linorder list list
     \<Rightarrow> 'c::linorder list \<Rightarrow> 'c list \<Rightarrow> (nat \<times> string) set \<Rightarrow> 'v search \<Rightarrow> bool" where
  "found_by G FS X y classes S st =
     (\<forall>thr p ty. fst (snd st) = Some (Some thr, p, ty) \<longrightarrow>
        (p, ty) \<in> S \<and>
        (\<exists>l r. best_split_classification G FS (X ! p) y ty classes = Inr (Some thr, fst st, l, r)))"

section \<open>The collaborators in \<open>ModelsML/util.py\<close>\<close>

text \<open>
  Modelled from the spec: \<open>gini\<close> of \<open>ModelsML/util.py\<close>, which is not among the sources.
  "impurity(counts, total): must satisfy the Gini formula 1 - sum (count_i/total)^2".
  In numpy a zero total gives \<open>0/0\<close>, which is \<open>NaN\<close>, for zero counts, and minus
  infinity otherwise; the program only tests an impurity with \<open>== 0.0\<close> and as the
  right-hand side of \<open><\<close>, where both are false, so \<open>NaN\<close> stands for both.
\<close>

definition gini :: "nat list \<Rightarrow> nat \<Rightarrow> score" where
  "gini counts n =
     (if n = 0 then NaN
      else Fin (1 - (\<Sum>c\<leftarrow>counts. (of_nat c / of_nat n) ^ 2)))"

text \<open>
  Modelled from the spec: \<open>find_splits\<close> of \<open>ModelsML/util.py\<close>, which is not among the
  sources. "generate_categorical_candidates(unique_values): a sequence of candidate
  subsets; deterministic; enumerates at least all single-value subsets". Here: every
  non-empty subset, smaller subsets first.
\<close>

definition find_splits :: "'v list \<Rightarrow> 'v list list" where
  "find_splits unique_values =
     concat (map (\<lambda>k. filter (\<lambda>s. length s = k) (subseqs unique_values))
               [1..<Suc (length unique_values)])"

section \<open>Properties of the node operations\<close>

lemma del_loop_pair: "del_loop 0 [a, b] = [b]"
  by (simp add: del_loop.simps [of 0] del_loop.simps [of "Suc 0"])

lemma children_setter_pair:
  "children_setter cur [TreeObj c, TreeObj d] = (cur @ [c, d], None)"
  by (simp add: children_setter_def)

text \<open>
  C4. Every node-level operation keeps a node at zero or two children: the setter rejects
  a sequence whose length is not 2, repeated assignment never yields more than two
  children, and deleting removes all children.

  The code keeps only the first part. Assigning a pair to a node that already has two
  children appends, giving four; a pair whose second element is not a tree leaves one
  child behind; deleting the children of a node with two children leaves the second one.
\<close>

theorem children_ops_break_pair_invariant:
  "fst (children_setter [a, b] [TreeObj c, TreeObj d]) = [a, b, c, d]
   \<and> children_setter [] [TreeObj c, OtherObj] = ([c], Some AssertionError)
   \<and> children_deleter [a, b] = [b]"
  by (simp add: children_setter_pair children_deleter_def del_loop_pair)
    (simp add: children_setter_def)

section \<open>Growth on concrete datasets\<close>

text \<open>
  C1. For every committed split, the two children are built with the class-count
  distributions of the globally best split, the one of the committed feature.

  The code builds them from \<open>left_distribution\<close> and \<open>right_distribution\<close>, the
  variables of the loop over the features, which hold the result for the last feature.
  Below, feature 0 separates the classes (distributions \<open>[2, 0]\<close> and \<open>[0, 2]\<close>) and is
  committed, feature 1 is last and does not (\<open>[1, 1]\<close> and \<open>[1, 1]\<close>): both children get
  \<open>[1, 1]\<close>.
\<close>

theorem grow_tree_children_from_last_feature:
  "best_split_classification gini find_splits [1, 2, 3, 4 :: nat] [0, 0, 1, 1 :: nat] ''n'' [0, 1]
     = Inr (Some (Thr 2), Fin 0, Some [2, 0], Some [0, 2])
   \<and> best_split_classification gini find_splits [1, 2, 1, 2 :: nat] [0, 0, 1, 1 :: nat] ''n'' [0, 1]
     = Inr (Some (Thr 1), Fin (1 / 2), Some [1, 1], Some [1, 1])
   \<and> grow_tree 2 gini find_splits (Tree ''root'' None None [] [2, 2] 4)
       [[1, 2, 3, 4], [1, 2, 1, 2 :: nat]] [0, 0, 1, 1 :: nat] [''n'', ''n'']
       (Fin (1 / 2)) [0, 1] 2 None 0 (Fin 1)
     = Some (Inr (Tree ''root'' (Some (RGt (Thr 2))) (Some 0)
         [Tree ''root_0_child1'' None None [] [1, 1] 2,
          Tree ''root_0_child2'' None None [] [1, 1] 2]
         [2, 2] 4))"
  by code_simp

text \<open>
  C2. For a categorical feature the split predicate is set membership, both when a
  candidate is evaluated and in the rule committed to the node, for every candidate
  subset.

  The search uses \<open>np.isin\<close> (line 206), the committed rule uses \<open>==\<close> (line 134). On
  the column \<open>[1, 2, 3, 4]\<close> the best candidate is the subset \<open>{1, 2}\<close>; comparing the
  column with it by \<open>==\<close> does not give the membership mask, and \<open>grow_tree\<close> raises. On
  a column as long as the subset, \<open>==\<close> compares position by position.
\<close>

theorem categorical_rule_is_not_membership:
  "best_split_classification gini find_splits [1, 2, 3, 4 :: nat] [0, 0, 1, 1 :: nat] ''c'' [0, 1]
     = Inr (Some (Subset [1, 2]), Fin 0, Some [0, 2], Some [2, 0])
   \<and> selection [1, 2, 3, 4 :: nat] (Subset [1, 2]) = [True, True, False, False]
   \<and> apply_rule (make_rule ''c'' (Subset [1, 2])) (map Some [1, 2, 3, 4 :: nat])
     = Inl AttributeError
   \<and> grow_tree 2 gini find_splits (Tree ''root'' None None [] [2, 2] 4)
       [[1, 2, 3, 4 :: nat]] [0, 0, 1, 1 :: nat] [''c''] (Fin (1 / 2)) [0, 1] 2 None 0 (Fin 1)
     = Some (Inl AttributeError)
   \<and> selection [2, 1 :: nat] (Subset [1, 2]) = [True, True]
   \<and> apply_rule (make_rule ''c'' (Subset [1, 2])) (map Some [2, 1 :: nat])
     = Inr [False, False]"
  by code_simp

text \<open>
  C3. With \<open>max_depth = 0\<close>, growing a root attaches no children to it.

  The test at line 112 is \<open>current_depth > max_depth\<close>, and the root is grown at depth
  0, so the root is split; its children, at depth 1, are the first nodes to be stopped.
\<close>

theorem grow_tree_max_depth_zero_splits_root:
  "grow_tree 2 gini find_splits (Tree ''root'' None None [] [2, 2] 4)
       [[1, 2, 3, 4 :: nat]] [0, 0, 1, 1 :: nat] [''n''] (Fin (1 / 2)) [0, 1] 2 (Some 0) 0 (Fin 1)
     = Some (Inr (Tree ''root'' (Some (RGt (Thr 2))) (Some 0)
         [Tree ''root_0_child1'' None None [] [2, 0] 2,
          Tree ''root_0_child2'' None None [] [0, 2] 2]
         [2, 2] 4))"
  by code_simp

text \<open>
  C8. In a grown tree every node's \<open>n_subset\<close> is the sum of its \<open>class_counts\<close>, and
  a parent's \<open>n_subset\<close> is the sum of its two children's.

  The first half holds by construction (lines 150-152, 158-160). The second fails below
  the root: a child's counts are those of the last feature's split, while its own
  children are counted on the examples the committed feature sent to it. Below, the node
  \<open>root_0_child1\<close> has \<open>n_subset = 1\<close> and children with \<open>n_subset\<close> 1 and 2.
\<close>

theorem grow_tree_parent_count_differs:
  "grow_tree 4 gini find_splits (Tree ''root'' None None [] [2, 4] 6)
       [[1, 1, 1, 2, 2, 2], [1, 2, 2, 2, 2, 2 :: nat]] [0, 0, 1, 1, 1, 1 :: nat] [''n'', ''n'']
       (Fin (4 / 9)) [0, 1] 1 None 0 (Fin 1)
     = Some (Inr (Tree ''root'' (Some (RGt (Thr 1))) (Some 0)
         [Tree ''root_0_child1'' (Some (RGt (Thr 1))) (Some 1)
           [Tree ''root_0_child1_1_child1'' None None [] [1, 0] 1,
            Tree ''root_0_child1_1_child2'' None None [] [1, 1] 2]
           [1, 0] 1,
          Tree ''root_0_child2'' None None [] [1, 4] 5]
         [2, 4] 6))"
  by code_simp

section \<open>Split Search keeps the first minimum\<close>

lemma score_less_trans: "score_less a b \<Longrightarrow> score_less b c \<Longrightarrow> score_less a c"
  by (cases a; cases b; cases c) auto

lemma score_less_irrefl: "\<not> score_less a a"
  by (cases a) auto

lemma score_less_asym: "score_less a b \<Longrightarrow> \<not> score_less b a"
  by (cases a; cases b) auto

lemma split_loop_inv:
  "split_loop G fv ls cl cs (b, imp0, l0, r0) = Inr (bt, imp, l, r) \<Longrightarrow>
     (imp = imp0 \<or> score_less imp imp0)
   \<and> (\<forall>c\<in>set cs. \<not> score_less (split_gini G fv ls cl c) imp)
   \<and> ((bt, imp, l, r) = (b, imp0, l0, r0)
      \<or> (\<exists>i<length cs. \<exists>ld rd. bt = Some (cs ! i) \<and> l = Some ld \<and> r = Some rd
           \<and> split_eval G fv ls cl (cs ! i) = Inr (imp, ld, rd)
           \<and> score_less imp imp0
           \<and> (\<forall>j<i. split_gini G fv ls cl (cs ! j) \<noteq> imp)))"
proof (induction cs arbitrary: b imp0 l0 r0)
  case Nil
  then show ?case by simp
next
  case (Cons c cs)
  from Cons.prems obtain g ld rd where ev: "split_eval G fv ls cl c = Inr (g, ld, rd)"
    by (auto split: sum.splits)
  then have sg: "split_gini G fv ls cl c = g"
    by (simp add: split_gini_def)
  show ?case
  proof (cases "score_less g imp0")
    case True
    with Cons.prems ev
    have run: "split_loop G fv ls cl cs (Some c, g, Some ld, Some rd) = Inr (bt, imp, l, r)"
      by simp
    note ih = Cons.IH [OF run]
    from ih have le: "imp = g \<or> score_less imp g" by blast
    with True have A: "score_less imp imp0"
      by (auto intro: score_less_trans)
    from le have B: "\<not> score_less g imp"
      by (auto simp: score_less_irrefl dest: score_less_asym)
    from ih have C: "\<forall>c\<in>set cs. \<not> score_less (split_gini G fv ls cl c) imp" by blast
    from ih have
      "(bt, imp, l, r) = (Some c, g, Some ld, Some rd)
       \<or> (\<exists>i<length cs. \<exists>ld rd. bt = Some (cs ! i) \<and> l = Some ld \<and> r = Some rd
           \<and> split_eval G fv ls cl (cs ! i) = Inr (imp, ld, rd)
           \<and> score_less imp g
           \<and> (\<forall>j<i. split_gini G fv ls cl (cs ! j) \<noteq> imp))" by blast
    then have D: "\<exists>i<length (c # cs). \<exists>ld rd. bt = Some ((c # cs) ! i) \<and> l = Some ld \<and> r = Some rd
           \<and> split_eval G fv ls cl ((c # cs) ! i) = Inr (imp, ld, rd)
           \<and> score_less imp imp0
           \<and> (\<forall>j<i. split_gini G fv ls cl ((c # cs) ! j) \<noteq> imp)"
    proof
      assume "(bt, imp, l, r) = (Some c, g, Some ld, Some rd)"
      with ev A show ?thesis
        by (intro exI [of _ 0]) simp
    next
      assume "\<exists>i<length cs. \<exists>ld rd. bt = Some (cs ! i) \<and> l = Some ld \<and> r = Some rd
           \<and> split_eval G fv ls cl (cs ! i) = Inr (imp, ld, rd)
           \<and> score_less imp g
           \<and> (\<forall>j<i. split_gini G fv ls cl (cs ! j) \<noteq> imp)"
      then obtain i ld' rd' where i: "i < length cs" "bt = Some (cs ! i)" "l = Some ld'"
        "r = Some rd'" "split_eval G fv ls cl (cs ! i) = Inr (imp, ld', rd')"
        "score_less imp g" "\<forall>j<i. split_gini G fv ls cl (cs ! j) \<noteq> imp"
        by blast
      from i(6) have "g \<noteq> imp" by (auto simp: score_less_irrefl)
      with i(7) sg have "\<forall>j<Suc i. split_gini G fv ls cl ((c # cs) ! j) \<noteq> imp"
        by (auto simp: nth_Cons split: nat.splits)
      with i A show ?thesis
        by (intro exI [of _ "Suc i"]) simp
    qed
    from A B C D sg show ?thesis by simp
  next
    case False
    with Cons.prems ev
    have run: "split_loop G fv ls cl cs (b, imp0, l0, r0) = Inr (bt, imp, l, r)"
      by simp
    note ih = Cons.IH [OF run]
    from ih have le: "imp = imp0 \<or> score_less imp imp0" by blast
    with False have B: "\<not> score_less g imp"
      by (auto dest: score_less_trans)
    from ih have C: "\<forall>c\<in>set cs. \<not> score_less (split_gini G fv ls cl c) imp" by blast
    from ih have
      "(bt, imp, l, r) = (b, imp0, l0, r0)
       \<or> (\<exists>i<length cs. \<exists>ld rd. bt = Some (cs ! i) \<and> l = Some ld \<and> r = Some rd
           \<and> split_eval G fv ls cl (cs ! i) = Inr (imp, ld, rd)
           \<and> score_less imp imp0
           \<and> (\<forall>j<i. split_gini G fv ls cl (cs ! j) \<noteq> imp))" by blast
    then have D: "(bt, imp, l, r) = (b, imp0, l0, r0)
       \<or> (\<exists>i<length (c # cs). \<exists>ld rd. bt = Some ((c # cs) ! i) \<and> l = Some ld \<and> r = Some rd
           \<and> split_eval G fv ls cl ((c # cs) ! i) = Inr (imp, ld, rd)
           \<and> score_less imp imp0
           \<and> (\<forall>j<i. split_gini G fv ls cl ((c # cs) ! j) \<noteq> imp))"
    proof
      assume "(bt, imp, l, r) = (b, imp0, l0, r0)"
      then show ?thesis by simp
    next
      assume "\<exists>i<length cs. \<exists>ld rd. bt = Some (cs ! i) \<and> l = Some ld \<and> r = Some rd
           \<and> split_eval G fv ls cl (cs ! i) = Inr (imp, ld, rd)
           \<and> score_less imp imp0
           \<and> (\<forall>j<i. split_gini G fv ls cl (cs ! j) \<noteq> imp)"
      then obtain i ld' rd' where i: "i < length cs" "bt = Some (cs ! i)" "l = Some ld'"
        "r = Some rd'" "split_eval G fv ls cl (cs ! i) = Inr (imp, ld', rd')"
        "score_less imp imp0" "\<forall>j<i. split_gini G fv ls cl (cs ! j) \<noteq> imp"
        by blast
      from i(6) False have "g \<noteq> imp" by auto
      with i(7) sg have "\<forall>j<Suc i. split_gini G fv ls cl ((c # cs) ! j) \<noteq> imp"
        by (auto simp: nth_Cons split: nat.splits)
      with i have "\<exists>i<length (c # cs). \<exists>ld rd. bt = Some ((c # cs) ! i) \<and> l = Some ld \<and> r = Some rd
           \<and> split_eval G fv ls cl ((c # cs) ! i) = Inr (imp, ld, rd)
           \<and> score_less imp imp0
           \<and> (\<forall>j<i. split_gini G fv ls cl ((c # cs) ! j) \<noteq> imp)"
        by (intro exI [of _ "Suc i"]) simp
      then show ?thesis by blast
    qed
    from le B C D sg show ?thesis by simp
  qed
qed





section \<open>The search over the features\<close>


lemma feature_loop_found_by:
  "feature_loop G FS X y cl ps st = Inr st' \<Longrightarrow> found_by G FS X y cl S st
     \<Longrightarrow> set ps \<subseteq> S \<Longrightarrow> found_by G FS X y cl S st'"
proof (induction ps arbitrary: st)
  case Nil
  then show ?case by simp
next
  case (Cons a ps)
  obtain idx data_type where a: "a = (idx, data_type)" by (cases a)
  obtain bg best ld rd where st: "st = (bg, best, ld, rd)" by (cases st)
  from Cons.prems(1) a st obtain new_thr new_gini ld' rd' where
    bs: "best_split_classification G FS (X ! idx) y data_type cl = Inr (new_thr, new_gini, ld', rd')"
    by (auto split: sum.splits)
  let ?st1 = "if score_less new_gini bg then (new_gini, Some (new_thr, idx, data_type), ld', rd')
              else (bg, best, ld', rd')"
  from Cons.prems(1) a st bs have run: "feature_loop G FS X y cl ps ?st1 = Inr st'"
    by simp
  from Cons.prems(2,3) a st bs have "found_by G FS X y cl S ?st1"
    by (auto simp: found_by_def)
  from Cons.IH [OF run this] Cons.prems(3) show ?case by simp
qed

lemma search_features_found:
  assumes "search_features G FS X y dts bg cl = Inr (bg', Some (Some thr, p, ty), ld, rd)"
  shows "(p, ty) \<in> set (zip [0..<length X] dts)
       \<and> (\<exists>l r. best_split_classification G FS (X ! p) y ty cl = Inr (Some thr, bg', l, r))"
proof -
  have "found_by G FS X y cl (set (zip [0..<length X] dts)) (bg, None, None, None)"
    by (simp add: found_by_def)
  from feature_loop_found_by [OF assms [unfolded search_features_def] this]
  show ?thesis by (simp add: found_by_def)
qed

lemma commits_Some:
  "commits found m = Some (thr, p, ty) \<longleftrightarrow>
     (\<exists>ld rd. found = (fst found, Some (Some thr, p, ty), ld, rd)) \<and> score_less (fst found) m"
  by (cases "(found, m)" rule: commits.cases) auto




section \<open>The second size check\<close>

lemma set_split_fields:
  "split_rule (set_split r f t) = r" "split_feature (set_split r f t) = f"
  "children (set_split r f t) = children t" "class_counts (set_split r f t) = class_counts t"
  "n_subset (set_split r f t) = n_subset t" "name (set_split r f t) = name t"
  by (cases t; simp)+

text \<open>
  C5. If a best split passes the impurity checks but one side of the realized partition
  has fewer than \<open>min_size\<close> examples, the split is discarded: \<open>split_feature\<close> and
  \<open>split_rule\<close> are set back to absent, no children are attached, and the node keeps
  its class distribution.
\<close>

theorem grow_tree_discards_small_split:
  assumes "\<not> stops_early (length y) best_gini min_size max_depth current_depth"
    and "search_features G FS X y data_types best_gini classes = Inr found"
    and "commits found max_gini = Some (best_thr, best_p_ind, best_type)"
    and "partition_data (make_rule best_type best_thr) X y best_p_ind
           = Inr (right_y, right_x, left_y, left_x)"
    and "int (length right_y) < min_size \<or> int (length left_y) < min_size"
  shows "\<exists>self'. grow_tree (Suc fuel) G FS self X y data_types best_gini classes min_size
             max_depth current_depth max_gini = Some (Inr self')
           \<and> split_feature self' = None \<and> split_rule self' = None
           \<and> children self' = children self \<and> class_counts self' = class_counts self
           \<and> n_subset self' = n_subset self \<and> name self' = name self"
proof -
  from assms have "grow_tree (Suc fuel) G FS self X y data_types best_gini classes min_size
      max_depth current_depth max_gini = Some (Inr (set_split None None self))"
    by auto
  then show ?thesis
    by (simp add: set_split_fields)
qed

theorem grow_tree_discards_small_split_witness:
  "\<not> stops_early (length [0, 1, 1 :: nat]) (Fin (4 / 9)) 2 None 0
   \<and> commits (Fin 0, Some (Some (Thr (1 :: nat)), 0, ''n''), Some [1, 0], Some [0, 2]) (Fin 1)
       = Some (Thr 1, 0, ''n'')
   \<and> partition_data (make_rule ''n'' (Thr 1)) [[1, 2, 3 :: nat]] [0, 1, 1 :: nat] 0
       = Inr ([1, 1], [[2, 3]], [0], [[1]])
   \<and> (\<exists>self'. grow_tree (Suc 0) gini find_splits (Tree ''root'' (Some (RGt (Thr 9))) (Some 7) [] [1, 2] 3)
             [[1, 2, 3 :: nat]] [0, 1, 1 :: nat] [''n''] (Fin (4 / 9)) [0, 1] 2 None 0 (Fin 1)
           = Some (Inr self')
         \<and> split_feature self' = None \<and> split_rule self' = None
         \<and> children self' = children (Tree ''root'' (Some (RGt (Thr 9))) (Some 7) [] [1, 2] 3)
         \<and> class_counts self' = class_counts (Tree ''root'' (Some (RGt (Thr (9 :: nat)))) (Some 7) [] [1, 2] 3)
         \<and> n_subset self' = n_subset (Tree ''root'' (Some (RGt (Thr (9 :: nat)))) (Some 7) [] [1, 2] 3)
         \<and> name self' = name (Tree ''root'' (Some (RGt (Thr (9 :: nat)))) (Some 7) [] [1, 2] 3))"
proof -
  have a: "\<not> stops_early (length [0, 1, 1 :: nat]) (Fin (4 / 9)) 2 None 0"
    by code_simp
  have b: "search_features gini find_splits [[1, 2, 3 :: nat]] [0, 1, 1 :: nat] [''n'']
             (Fin (4 / 9)) [0, 1]
           = Inr (Fin 0, Some (Some (Thr 1), 0, ''n''), Some [1, 0], Some [0, 2])"
    by code_simp
  have c: "commits (Fin 0, Some (Some (Thr (1 :: nat)), 0, ''n''), Some [1, 0], Some [0, 2]) (Fin 1)
       = Some (Thr 1, 0, ''n'')"
    by code_simp
  have d: "partition_data (make_rule ''n'' (Thr 1)) [[1, 2, 3 :: nat]] [0, 1, 1 :: nat] 0
       = Inr ([1, 1], [[2, 3]], [0], [[1]])"
    by code_simp
  have e: "int (length [1, 1 :: nat]) < 2 \<or> int (length [0 :: nat]) < 2"
    by simp
  note r = grow_tree_discards_small_split [OF a b c d e, of 0
      "Tree ''root'' (Some (RGt (Thr 9))) (Some 7) [] [1, 2] 3"]
  show ?thesis
    by (intro conjI a c d r)
qed

section \<open>Traversal with a value the rule cannot compare\<close>






section \<open>Termination of the growth\<close>

lemma length_select:
  "length sel = length xs \<Longrightarrow> length (filter snd (zip xs sel)) = length (filter (\<lambda>b. b) sel)"
  by (induction xs sel rule: list_induct2') auto

lemma mask_select_length:
  "mask_select xs sel = Inr r \<Longrightarrow>
     length sel = length xs \<and> length r = length (filter (\<lambda>b. b) sel)"
  by (auto simp: mask_select_def length_select split: if_splits)

lemma filter_Not_map: "length (filter (\<lambda>b. b) (map Not sel)) = length (filter Not sel)"
  by (induction sel) auto

lemma length_true_false:
  "length (filter (\<lambda>b. b) sel) + length (filter Not sel) = length sel"
  by (induction sel) auto

lemma has_true: "0 < length (filter (\<lambda>b. b) sel) \<Longrightarrow> True \<in> set sel"
  by (induction sel) (auto split: if_splits)

lemma has_false: "0 < length (filter Not sel) \<Longrightarrow> False \<in> set sel"
  by (induction sel) (auto split: if_splits)

lemma split_eval_finite:
  assumes G0: "\<And>counts. G counts 0 = NaN"
    and ev: "split_eval G fv ls cl thr = Inr (Fin q, ld, rd)"
  shows "length fv = length ls \<and> True \<in> set (selection fv thr) \<and> False \<in> set (selection fv thr)"
proof -
  let ?sel = "selection fv thr"
  from ev obtain right left where
    r: "mask_select ls ?sel = Inr right" and l: "mask_select ls (map Not ?sel) = Inr left"
    and sc: "score_div (score_add (score_scale (length right) (G rd (length right)))
               (score_scale (length ls - length right) (G ld (length ls - length right))))
               (length ls) = Fin q"
    by (auto simp: split_eval_def Let_def split: sum.splits)
  from r have len: "length ?sel = length ls" and nr: "length right = length (filter (\<lambda>b. b) ?sel)"
    by (auto dest: mask_select_length)
  have "length right \<noteq> 0"
  proof
    assume "length right = 0"
    with sc G0 show False by simp
  qed
  moreover have "length ls - length right \<noteq> 0"
  proof
    assume "length ls - length right = 0"
    with sc G0 show False
      by (cases "G rd (length right)") simp_all
  qed
  ultimately have pos: "0 < length (filter (\<lambda>b. b) ?sel)" "0 < length (filter Not ?sel)"
    using nr len length_true_false [of ?sel] by auto
  have "True \<in> set ?sel" "False \<in> set ?sel"
    using has_true [OF pos(1)] has_false [OF pos(2)] by blast+
  moreover from len have "length fv = length ls"
    by (cases thr) simp_all
  ultimately show ?thesis by simp
qed

lemma partition_lengths:
  assumes "partition_data rule X y p = Inr (ry, rx, ly, lx)"
  shows "\<exists>splits. apply_rule rule (map Some (X ! p)) = Inr splits \<and> length splits = length y
           \<and> length ry = length (filter (\<lambda>b. b) splits) \<and> length ly = length (filter Not splits)"
proof -
  from assms obtain splits where s: "apply_rule rule (map Some (X ! p)) = Inr splits"
    and r: "mask_select y splits = Inr ry" and l: "mask_select y (map Not splits) = Inr ly"
    by (auto simp: partition_data_def split: sum.splits)
  from r have "length splits = length y" "length ry = length (filter (\<lambda>b. b) splits)"
    by (auto dest: mask_select_length)
  moreover from mask_select_length [OF l] have "length ly = length (filter Not splits)"
    by (simp add: comp_def)
  ultimately show ?thesis using s by blast
qed


lemma np_unique_props:
  "distinct (np_unique xs)" "set (np_unique xs) = set xs"
  by (simp_all add: np_unique_def)

lemma selection_length: "length (selection fv thr) = length fv"
  by (cases thr) simp_all

lemma broadcast_scalar: "broadcast xs [a] = Some (map (\<lambda>x. (x, a)) xs)"
proof (cases "length xs = 1")
  case True
  then obtain x where "xs = [x]" by (cases xs) auto
  then show ?thesis by (simp add: broadcast_def)
next
  case False
  then show ?thesis by (simp add: broadcast_def)
qed

lemma np_gt_scalar: "np_gt (map Some col) (Thr a) = Inr (map (\<lambda>v. v > a) col)"
  by (auto simp: np_gt_def broadcast_scalar comp_def image_iff)

lemma np_eq_scalar: "np_eq (map Some col) (Thr a) = Inr (map (\<lambda>v. v = a) col)"
  by (simp add: np_eq_def broadcast_scalar comp_def)

lemma np_eq_single: "np_eq (map Some col) (Subset [a]) = Inr (map (\<lambda>v. v = a) col)"
  by (simp add: np_eq_def broadcast_scalar comp_def)

text \<open>The realized partition has both sides whenever the evaluated one has.\<close>

lemma realized_split:
  assumes FS: "\<And>u s. distinct u \<Longrightarrow> s \<in> set (FS u) \<Longrightarrow> distinct s \<and> set s \<subseteq> set u"
    and cand: "thr \<in> set (possible_thresholds FS col ty)"
    and t: "True \<in> set (selection col thr)" and f: "False \<in> set (selection col thr)"
    and ap: "apply_rule (make_rule ty thr) (map Some col) = Inr splits"
    and len: "length splits = length col"
  shows "True \<in> set splits \<and> False \<in> set splits"
proof (cases "ty = ''c''")
  case True
  with cand obtain s where s: "thr = Subset s" "s \<in> set (FS (np_unique col))"
    by (auto simp: possible_thresholds_def)
  from FS [OF np_unique_props(1) s(2)] have ds: "distinct s" "set s \<subseteq> set col"
    by (simp_all add: np_unique_props)
  from True s have rule: "make_rule ty thr = REq (Subset s)"
    by (simp add: make_rule_def)
  show ?thesis
  proof (cases "length col = length s")
    case eq: True
    have "card (set s) = length s" using ds(1) by (simp add: distinct_card)
    moreover have "card (set col) \<le> length col" by (rule card_length)
    moreover have "card (set s) \<le> card (set col)" using ds(2) by (simp add: card_mono)
    ultimately have "card (set s) = card (set col)" using eq by simp
    with ds(2) have "set s = set col"
      by (simp add: card_subset_eq)
    with f s(1) show ?thesis by auto
  next
    case ne: False
    show ?thesis
    proof (cases "length s = 1")
      case True
      then obtain a where a: "s = [a]" by (cases s) auto
      with ap rule have "splits = map (\<lambda>v. v = a) col"
        by (simp add: np_eq_single)
      moreover from a s(1) have "selection col thr = map (\<lambda>v. v = a) col" by simp
      ultimately show ?thesis using t f by simp
    next
      case False
      with ap rule ne len show ?thesis
        by (auto simp: np_eq_def broadcast_def split: if_splits)
    qed
  qed
next
  case False
  with cand obtain a where a: "thr = Thr a" "a \<in> set col"
    by (auto simp: possible_thresholds_def np_unique_props)
  note gt = np_gt_scalar [of col a] and eq = np_eq_scalar [of col a]
  show ?thesis
  proof (cases "ty \<in> {''n'', ''o''}")
    case True
    with ap a gt have "splits = selection col thr"
      by (simp add: make_rule_def)
    with t f show ?thesis by simp
  next
    case no: False
    with ap a eq have sp: "splits = map (\<lambda>v. v = a) col"
      by (simp add: make_rule_def)
    from t a obtain v where "v \<in> set col" "v > a" by auto
    then have "False \<in> set splits" using sp by force
    moreover from a(2) have "True \<in> set splits" using sp by force
    ultimately show ?thesis by simp
  qed
qed


lemma count_pos: "b \<in> set sel \<Longrightarrow> 0 < length (filter (\<lambda>x. x = b) sel)"
  by (induction sel) auto

lemma committed_split_decreases:
  assumes G0: "\<And>counts. G counts 0 = NaN"
    and FS: "\<And>u s. distinct u \<Longrightarrow> s \<in> set (FS u) \<Longrightarrow> distinct s \<and> set s \<subseteq> set u"
    and se: "search_features G FS X y dts bg cl = Inr found"
    and co: "commits found mg = Some (thr, p, ty)"
    and pa: "partition_data (make_rule ty thr) X y p = Inr (ry, rx, ly, lx)"
  shows "length ry < length y \<and> length ly < length y"
proof -
  from co obtain ld rd where f: "found = (fst found, Some (Some thr, p, ty), ld, rd)"
    by (auto simp: commits_Some)
  with se have "search_features G FS X y dts bg cl = Inr (fst found, Some (Some thr, p, ty), ld, rd)"
    by simp
  from search_features_found [OF this] obtain l r where
    bs: "best_split_classification G FS (X ! p) y ty cl = Inr (Some thr, fst found, l, r)"
    by blast
  let ?cs = "possible_thresholds FS (X ! p) ty"
  from bs have "split_loop G (X ! p) y cl ?cs (None, Fin 1, None, None)
      = Inr (Some thr, fst found, l, r)"
    by (simp add: best_split_classification_def)
  from split_loop_inv [OF this] obtain i ld' rd' where i: "i < length ?cs" "thr = ?cs ! i"
    "split_eval G (X ! p) y cl (?cs ! i) = Inr (fst found, ld', rd')"
    "score_less (fst found) (Fin 1)"
    by auto
  from i(4) obtain q where q: "fst found = Fin q" by (cases "fst found") auto
  from i(1,2) have cand: "thr \<in> set ?cs" by simp
  from i(2,3) q have "split_eval G (X ! p) y cl thr = Inr (Fin q, ld', rd')" by simp
  from split_eval_finite [OF G0 this]
  have ev: "length (X ! p) = length y" "True \<in> set (selection (X ! p) thr)"
    "False \<in> set (selection (X ! p) thr)"
    by simp_all
  from partition_lengths [OF pa] obtain splits where
    sp: "apply_rule (make_rule ty thr) (map Some (X ! p)) = Inr splits" "length splits = length y"
    "length ry = length (filter (\<lambda>b. b) splits)" "length ly = length (filter Not splits)"
    by blast
  from sp(2) ev(1) have "length splits = length (X ! p)" by simp
  from realized_split [OF FS cand ev(2,3) sp(1) this]
  have "True \<in> set splits" "False \<in> set splits" by simp_all
  from count_pos [OF this(1)] count_pos [OF this(2)]
  have "0 < length (filter (\<lambda>b. b) splits)" "0 < length (filter Not splits)"
    by simp_all
  with sp(2,3,4) length_true_false [of splits] show ?thesis by linarith
qed

lemma grow_tree_enough_fuel:
  assumes G0: "\<And>counts. G counts 0 = NaN"
    and FS: "\<And>u s. distinct u \<Longrightarrow> s \<in> set (FS u) \<Longrightarrow> distinct s \<and> set s \<subseteq> set u"
  shows "length y < fuel \<Longrightarrow>
     \<exists>res. grow_tree fuel G FS self X y dts bg cl ms md cd mg = Some res"
proof (induction fuel arbitrary: self X y bg cd mg)
  case 0
  then show ?case by simp
next
  case (Suc k)
  show ?case
  proof (cases "stops_early (length y) bg ms md cd")
    case True
    then show ?thesis by simp
  next
    case ns: False
    show ?thesis
    proof (cases "search_features G FS X y dts bg cl")
      case (Inl e)
      with ns show ?thesis by simp
    next
      case se: (Inr found)
      show ?thesis
      proof (cases "commits found mg")
        case None
        with ns se show ?thesis by simp
      next
        case co: (Some chosen)
        obtain thr p ty where ch: "chosen = (thr, p, ty)" by (cases chosen)
        show ?thesis
        proof (cases "partition_data (make_rule ty thr) X y p")
          case (Inl e)
          with ns se co ch show ?thesis by simp
        next
          case pa: (Inr parts)
          obtain ry rx ly lx where ps: "parts = (ry, rx, ly, lx)" by (cases parts)
          from committed_split_decreases [OF G0 FS se co [unfolded ch] pa [unfolded ps]] Suc.prems
          have small: "length ry < k" "length ly < k" by simp_all
          note L = Suc.IH [OF small(2)] and R = Suc.IH [OF small(1)]
          show ?thesis
          proof (cases "int (length ry) < ms \<or> int (length ly) < ms")
            case True
            with ns se co ch pa ps show ?thesis by simp
          next
            case big: False
            show ?thesis
            proof (cases "fst (snd (snd found))")
              case None
              with ns se co ch pa ps big show ?thesis by simp
            next
              case ld: (Some left_distribution)
              from L obtain resl where resl: "grow_tree k G FS
                  (child_node (child_name self p ''_child1'') left_distribution) lx ly dts
                  (G left_distribution (length ly)) cl ms md (cd + 1) (Fin 1) = Some resl"
                by blast
              show ?thesis
              proof (cases resl)
                case (Inl e)
                with ns se co ch pa ps big ld resl show ?thesis by simp
              next
                case lt: (Inr left_tree)
                show ?thesis
                proof (cases "snd (snd (snd found))")
                  case None
                  with ns se co ch pa ps big ld resl lt show ?thesis by simp
                next
                  case rd: (Some right_distribution)
                  from R obtain resr where resr: "grow_tree k G FS
                      (child_node (child_name self p ''_child2'') right_distribution) rx ry dts
                      (G right_distribution (length ry)) cl ms md (cd + 1) (Fin 1) = Some resr"
                    by blast
                  with ns se co ch pa ps big ld resl lt rd show ?thesis
                    by (cases resr) simp_all
                qed
              qed
            qed
          qed
        qed
      qed
    qed
  qed
qed


lemma gini_zero_total: "gini counts 0 = NaN"
  by (simp add: gini_def)

lemma find_splits_subsets:
  "distinct u \<Longrightarrow> s \<in> set (find_splits u) \<Longrightarrow> distinct s \<and> set s \<subseteq> set u"
proof -
  assume d: "distinct u" and "s \<in> set (find_splits u)"
  then have "s \<in> set (subseqs u)"
    by (auto simp: find_splits_def)
  with d show ?thesis
    using subseqs_distinctD [of s u] subseqs_powset [of u] by auto
qed

text \<open>
  C9. \<open>grow_tree\<close> terminates on every finite dataset, for every \<open>min_size\<close>,
  \<open>max_depth\<close> (also unset) and \<open>max_gini\<close>: every committed split strictly decreases
  the number of examples passed to each recursive call.

  The two collaborators of \<open>util.py\<close> enter through their contracts: the impurity of an
  empty side is \<open>NaN\<close> (so a candidate with an empty side is never recorded), and a
  categorical candidate is a duplicate-free subset of the distinct values it was made
  from. Then a recursion depth of one more than the number of examples always yields a
  result, and both sides of a realized partition are strictly smaller than the dataset.
\<close>

theorem grow_tree_terminates:
  assumes G0: "\<And>counts. G counts 0 = NaN"
    and FS: "\<And>u s. distinct u \<Longrightarrow> s \<in> set (FS u) \<Longrightarrow> distinct s \<and> set s \<subseteq> set u"
  shows "(\<exists>res. grow_tree (Suc (length y)) G FS self X y dts bg cl ms md cd mg = Some res)
       \<and> (\<forall>found thr p ty ry rx ly lx.
            search_features G FS X y dts bg cl = Inr found \<longrightarrow>
            commits found mg = Some (thr, p, ty) \<longrightarrow>
            partition_data (make_rule ty thr) X y p = Inr (ry, rx, ly, lx) \<longrightarrow>
            length ry < length y \<and> length ly < length y)"
proof
  show "\<exists>res. grow_tree (Suc (length y)) G FS self X y dts bg cl ms md cd mg = Some res"
    by (rule grow_tree_enough_fuel [where G = G and FS = FS, OF G0 FS]) simp_all
next
  show "\<forall>found thr p ty ry rx ly lx.
            search_features G FS X y dts bg cl = Inr found \<longrightarrow>
            commits found mg = Some (thr, p, ty) \<longrightarrow>
            partition_data (make_rule ty thr) X y p = Inr (ry, rx, ly, lx) \<longrightarrow>
            length ry < length y \<and> length ly < length y"
    using committed_split_decreases [where G = G and FS = FS, OF G0 FS] by blast
qed

theorem grow_tree_terminates_witness:
  "gini [0, 0] 0 = NaN
   \<and> set (find_splits [1, 2 :: nat]) = {[1], [2], [1, 2]}
   \<and> (\<exists>res. grow_tree (Suc (length [0, 0, 1, 1, 1, 1 :: nat])) gini find_splits
         (Tree ''root'' None None [] [2, 4] 6)
         [[1, 1, 1, 2, 2, 2], [1, 2, 2, 2, 2, 2 :: nat]] [0, 0, 1, 1, 1, 1 :: nat] [''n'', ''c'']
         (Fin (4 / 9)) [0, 1] 0 None 0 (Fin 1) = Some res)
   \<and> partition_data (make_rule ''n'' (Thr 1)) [[1, 1, 1, 2, 2, 2], [1, 2, 2, 2, 2, 2 :: nat]]
         [0, 0, 1, 1, 1, 1 :: nat] 0
       = Inr ([1, 1, 1], [[2, 2, 2], [2, 2, 2]], [0, 0, 1], [[1, 1, 1], [1, 2, 2]])"
proof -
  have a: "gini [0, 0] 0 = NaN" by (rule gini_zero_total)
  have b: "set (find_splits [1, 2 :: nat]) = {[1], [2], [1, 2]}" by code_simp
  note t = grow_tree_terminates [where G = gini and FS = find_splits,
      OF gini_zero_total find_splits_subsets]
  have c: "\<exists>res. grow_tree (Suc (length [0, 0, 1, 1, 1, 1 :: nat])) gini find_splits
         (Tree ''root'' None None [] [2, 4] 6)
         [[1, 1, 1, 2, 2, 2], [1, 2, 2, 2, 2, 2 :: nat]] [0, 0, 1, 1, 1, 1 :: nat] [''n'', ''c'']
         (Fin (4 / 9)) [0, 1] 0 None 0 (Fin 1) = Some res"
    by (rule t [THEN conjunct1])
  have d: "partition_data (make_rule ''n'' (Thr 1)) [[1, 1, 1, 2, 2, 2], [1, 2, 2, 2, 2, 2 :: nat]]
         [0, 0, 1, 1, 1, 1 :: nat] 0
       = Inr ([1, 1, 1], [[2, 2, 2], [2, 2, 2]], [0, 0, 1], [[1, 1, 1], [1, 2, 2]])"
    by code_simp
  show ?thesis
    by (intro conjI a b c d)
qed

end
